theory Spec2Isabelle
  imports Main "HOL-Library.Word"
begin

section \<open>The files the patcher works on\<close>

text \<open>
  \<^verbatim>\<open>wavpatcher.py\<close> opens every discovered path, reads two bytes at offset 20 and, in
  patch mode, writes two bytes back. The world it runs in is modelled explicitly: a file
  is its bytes together with the exceptions that \<^verbatim>\<open>open\<close>, \<^verbatim>\<open>seek\<close>/\<^verbatim>\<open>read\<close>
  and \<^verbatim>\<open>seek\<close>/\<^verbatim>\<open>write\<close> raise on it, since the loop of the source catches them.
  Printing is assumed not to raise.
\<close>

type_synonym byte = "8 word"
type_synonym path = string

datatype exn = PermissionError | OtherException string

record wav_file =
  content :: "byte list"
  open_rb :: "exn option"
  open_rb_plus :: "exn option"
  read_raises :: "exn option"
  write_raises :: "(exn \<times> nat) option"

text \<open>
  \<open>open_rb\<close> and \<open>open_rb_plus\<close> are what \<^verbatim>\<open>open(path, "rb")\<close> and
  \<^verbatim>\<open>open(path, "rb+")\<close> raise, \<open>read_raises\<close> what the seek and read raise, and
  \<open>write_raises = Some (e, k)\<close> says that seeking back and writing raises \<open>e\<close> after \<open>k\<close>
  of the bytes to write reached the file.
\<close>

record filesystem =
  path_exists :: "path \<Rightarrow> bool"
  path_is_dir :: "path \<Rightarrow> bool"
  rglob_wav :: "path \<Rightarrow> path list"
  files :: "path \<rightharpoonup> wav_file"

text \<open>
  \<open>rglob_wav d\<close> is \<^verbatim>\<open>list(Path(d).rglob('*.wav'))\<close>: the discovery is the library's and is
  taken as given.
\<close>

subsection \<open>An open file\<close>

record handle =
  buf :: "byte list"
  pos :: nat

definition open_file :: "bool \<Rightarrow> (path \<rightharpoonup> wav_file) \<Rightarrow> path \<Rightarrow> exn + (wav_file \<times> handle)" where
  "open_file simulate fs p =
     (case fs p of
        None \<Rightarrow> Inl (OtherException ''No such file or directory'')
      | Some f \<Rightarrow>
          (case (if simulate then open_rb f else open_rb_plus f) of
             Some e \<Rightarrow> Inl e
           | None \<Rightarrow> Inr (f, \<lparr>buf = content f, pos = 0\<rparr>)))"

definition seek_set :: "nat \<Rightarrow> handle \<Rightarrow> handle" where
  "seek_set n h = h\<lparr>pos := n\<rparr>"

definition seek_cur :: "int \<Rightarrow> handle \<Rightarrow> exn + handle" where
  "seek_cur d h =
     (if int (pos h) + d < 0 then Inl (OtherException ''Invalid argument'')
      else Inr (h\<lparr>pos := nat (int (pos h) + d)\<rparr>))"

definition read_bytes :: "nat \<Rightarrow> handle \<Rightarrow> byte list \<times> handle" where
  "read_bytes n h =
     (let bs = take n (drop (pos h) (buf h)) in (bs, h\<lparr>pos := pos h + length bs\<rparr>))"

definition write_bytes :: "byte list \<Rightarrow> handle \<Rightarrow> handle" where
  "write_bytes bs h =
     h\<lparr>buf := take (pos h) (buf h) @ replicate (pos h - length (buf h)) 0 @ bs
                 @ drop (pos h + length bs) (buf h),
       pos := pos h + length bs\<rparr>"

definition close_file :: "path \<Rightarrow> wav_file \<Rightarrow> handle \<Rightarrow> (path \<rightharpoonup> wav_file) \<Rightarrow> (path \<rightharpoonup> wav_file)" where
  "close_file p f h fs = fs(p \<mapsto> f\<lparr>content := buf h\<rparr>)"

definition from_bytes_little :: "byte list \<Rightarrow> int" where
  "from_bytes_little bs = foldr (\<lambda>b acc. uint b + 256 * acc) bs 0"

section \<open>The scan\<close>

datatype line =
    NoWavFound
  | Banner bool path nat
  | Found path
  | Patched path
  | Progress nat nat
  | PermissionDenied path
  | ErrorLine path string
  | SummaryHeader
  | TotalScanned nat
  | ExtensibleFound nat
  | FilesPatched nat
  | ListHeader
  | ListItem path
  | ErrNotExist path
  | ErrNotDir path
  | ErrResult string

record scan_state =
  disk :: "path \<rightharpoonup> wav_file"
  extensible_files :: nat
  patched_file_list :: "path list"
  printed :: "line list"

definition print_line :: "bool \<Rightarrow> line \<Rightarrow> scan_state \<Rightarrow> scan_state" where
  "print_line cond l s = (if cond then s\<lparr>printed := printed s @ [l]\<rparr> else s)"

text \<open>
  The body of the \<^verbatim>\<open>with open(path, rwmode) as f\<close> block, lines 78 to 92: the
  exception it ends with, if any, and the state it leaves. The counters are updated
  before the write is attempted, and the handle's bytes are what the file holds when the
  block is left, also by an exception.
\<close>

definition read_format_id :: "wav_file \<Rightarrow> handle \<Rightarrow> exn + (int \<times> handle)" where
  "read_format_id f h =
     (case read_raises f of
        Some e \<Rightarrow> Inl e
      | None \<Rightarrow>
          (let (format_id_bytes, h') = read_bytes 2 (seek_set 20 h)
           in Inr (from_bytes_little format_id_bytes, h')))"

definition patch_header :: "wav_file \<Rightarrow> handle \<Rightarrow> exn option \<times> handle" where
  "patch_header f h =
     (case seek_cur (- 2) h of
        Inl e \<Rightarrow> (Some e, h)
      | Inr h' \<Rightarrow>
          (case write_raises f of
             Some (e, k) \<Rightarrow> (Some e, write_bytes (take k [1, 0]) h')
           | None \<Rightarrow> (None, write_bytes [1, 0] h')))"

definition with_open :: "bool \<Rightarrow> bool \<Rightarrow> path \<Rightarrow> scan_state \<Rightarrow> exn option \<times> scan_state" where
  "with_open simulate verbose p s =
     (case open_file simulate (disk s) p of
        Inl e \<Rightarrow> (Some e, s)
      | Inr (f, h) \<Rightarrow>
          (case read_format_id f h of
             Inl e \<Rightarrow> (Some e, s)
           | Inr (format_id, h') \<Rightarrow>
               if format_id = 65534 then
                 (let s1 = s\<lparr>extensible_files := extensible_files s + 1,
                             patched_file_list := patched_file_list s @ [p]\<rparr>;
                      s2 = print_line verbose (if simulate then Found p else Patched p) s1
                  in if \<not> simulate then
                       (case patch_header f h' of
                          (r, h'') \<Rightarrow> (r, s2\<lparr>disk := close_file p f h'' (disk s2)\<rparr>))
                     else (None, s2))
               else (None, s)))"

text \<open>One iteration of the loop, lines 76 to 105: the \<^verbatim>\<open>try\<close> and its two handlers.\<close>

definition process_file :: "bool \<Rightarrow> bool \<Rightarrow> nat \<Rightarrow> nat \<Rightarrow> path \<Rightarrow> scan_state \<Rightarrow> scan_state" where
  "process_file simulate verbose total_files idx p s =
     (case with_open simulate verbose p s of
        (None, s') \<Rightarrow> print_line (verbose \<and> idx mod 100 = 0) (Progress idx total_files) s'
      | (Some PermissionError, s') \<Rightarrow> print_line verbose (PermissionDenied p) s'
      | (Some (OtherException msg), s') \<Rightarrow> print_line verbose (ErrorLine p msg) s')"

fun scan_loop :: "bool \<Rightarrow> bool \<Rightarrow> nat \<Rightarrow> nat \<Rightarrow> path list \<Rightarrow> scan_state \<Rightarrow> scan_state" where
  "scan_loop simulate verbose total_files idx [] s = s"
| "scan_loop simulate verbose total_files idx (p # ps) s =
     scan_loop simulate verbose total_files (Suc idx) ps
       (process_file simulate verbose total_files idx p s)"

record result =
  res_total_files :: nat
  res_extensible_files :: nat
  res_patched_files :: "path list"
  res_success :: bool
  res_error :: "string option"
  res_message :: "string option"

definition patch_wav_files ::
  "filesystem \<Rightarrow> path \<Rightarrow> bool \<Rightarrow> bool \<Rightarrow> result \<times> (path \<rightharpoonup> wav_file) \<times> line list" where
  "patch_wav_files fs directory simulate verbose =
     (if \<not> path_exists fs directory then
        (\<lparr>res_total_files = 0, res_extensible_files = 0, res_patched_files = [],
          res_success = False,
          res_error = Some (''Directory does not exist: '' @ directory),
          res_message = None\<rparr>, files fs, [])
      else
        (let wav_files = rglob_wav fs directory;
             total_files = length wav_files
         in if total_files = 0 then
              (\<lparr>res_total_files = 0, res_extensible_files = 0, res_patched_files = [],
                res_success = True, res_error = None,
                res_message = Some ''No WAV files found''\<rparr>,
               files fs, (if verbose then [NoWavFound] else []))
            else
              (let s0 = \<lparr>disk = files fs, extensible_files = 0, patched_file_list = [],
                         printed = (if verbose then [Banner simulate directory total_files] else [])\<rparr>;
                   s = scan_loop simulate verbose total_files 1 wav_files s0
               in (\<lparr>res_total_files = total_files,
                    res_extensible_files = extensible_files s,
                    res_patched_files = patched_file_list s,
                    res_success = True, res_error = None, res_message = None\<rparr>,
                   disk s, printed s))))"

section \<open>The command line\<close>

record args =
  directory :: path
  patch :: bool
  quiet :: bool
  list_flag :: bool

record run =
  exit_code :: int
  disk_after :: "path \<rightharpoonup> wav_file"
  stdout :: "line list"
  stderr :: "line list"

definition main :: "args \<Rightarrow> filesystem \<Rightarrow> run" where
  "main a fs =
     (if \<not> path_exists fs (directory a) then
        \<lparr>exit_code = 1, disk_after = files fs, stdout = [],
         stderr = [ErrNotExist (directory a)]\<rparr>
      else if \<not> path_is_dir fs (directory a) then
        \<lparr>exit_code = 1, disk_after = files fs, stdout = [],
         stderr = [ErrNotDir (directory a)]\<rparr>
      else
        (case patch_wav_files fs (directory a) (\<not> patch a) (\<not> quiet a) of
           (results, d, out) \<Rightarrow>
             if \<not> res_success results then
               \<lparr>exit_code = 1, disk_after = d, stdout = out,
                stderr = [ErrResult (case res_error results of
                                       Some e \<Rightarrow> e | None \<Rightarrow> ''Unknown error'')]\<rparr>
             else
               \<lparr>exit_code = 0, disk_after = d,
                stdout = out
                  @ [SummaryHeader, TotalScanned (res_total_files results),
                     ExtensibleFound (res_extensible_files results)]
                  @ (if patch a \<and> res_extensible_files results > 0
                     then [FilesPatched (res_extensible_files results)] else [])
                  @ (if list_flag a \<and> res_extensible_files results > 0
                     then ListHeader # map ListItem (res_patched_files results) else []),
                stderr = []\<rparr>))"

section \<open>What the scan is expected to compute\<close>

text \<open>
  The vocabulary of the specification, stated on the bytes of a file rather than through a
  handle: the unsigned little-endian 16-bit integer at an offset, a file that the run can
  open and read, a file that carries the extensible tag, and the bytes a patch leaves.
\<close>

definition opens :: "bool \<Rightarrow> wav_file \<Rightarrow> bool" where
  "opens simulate f = ((if simulate then open_rb f else open_rb_plus f) = None)"

definition format_tag :: "byte list \<Rightarrow> int" where
  "format_tag c = from_bytes_little (take 2 (drop 20 c))"

definition le16_at :: "nat \<Rightarrow> byte list \<Rightarrow> int option" where
  "le16_at n c =
     (if n + 2 \<le> length c then Some (uint (c ! n) + 256 * uint (c ! (n + 1))) else None)"

definition readable :: "bool \<Rightarrow> (path \<rightharpoonup> wav_file) \<Rightarrow> path \<Rightarrow> bool" where
  "readable simulate fs p =
     (case fs p of None \<Rightarrow> False | Some f \<Rightarrow> opens simulate f \<and> read_raises f = None)"

definition matches :: "bool \<Rightarrow> (path \<rightharpoonup> wav_file) \<Rightarrow> path \<Rightarrow> bool" where
  "matches simulate fs p =
     (case fs p of
        None \<Rightarrow> False
      | Some f \<Rightarrow> readable simulate fs p \<and> le16_at 20 (content f) = Some 65534)"

definition written :: "wav_file \<Rightarrow> byte list" where
  "written f = (case write_raises f of None \<Rightarrow> [1, 0] | Some (e, k) \<Rightarrow> take k [1, 0])"

definition overwrite :: "wav_file \<Rightarrow> wav_file" where
  "overwrite f =
     f\<lparr>content := take 20 (content f) @ written f @ drop (20 + length (written f)) (content f)\<rparr>"

text \<open>
  Two files that differ at most in the two bytes at offsets 20 and 21.
\<close>

definition same_outside_tag :: "wav_file \<Rightarrow> wav_file \<Rightarrow> bool" where
  "same_outside_tag f f' =
     (f' = f\<lparr>content := content f'\<rparr> \<and> length (content f') = length (content f)
      \<and> take 20 (content f') = take 20 (content f)
      \<and> drop 22 (content f') = drop 22 (content f))"

section \<open>Example trees\<close>

text \<open>
  The scenario of the specification: \<open>a.wav\<close> with tag 1, \<open>b.wav\<close> and \<open>c.wav\<close> with
  tag 65534, under the directory \<open>music\<close>. A file is 20 bytes of header followed by the
  two bytes of its tag.
\<close>

definition plain_file :: "byte list \<Rightarrow> wav_file" where
  "plain_file c =
     \<lparr>content = c, open_rb = None, open_rb_plus = None, read_raises = None,
      write_raises = None\<rparr>"

definition pcm_bytes :: "byte list" where
  "pcm_bytes = replicate 20 0 @ [1, 0]"

definition extensible_bytes :: "byte list" where
  "extensible_bytes = replicate 20 0 @ [254, 255]"

definition tree :: "path list \<Rightarrow> (path \<rightharpoonup> wav_file) \<Rightarrow> filesystem" where
  "tree ps fs =
     \<lparr>path_exists = (\<lambda>d. d = ''music''), path_is_dir = (\<lambda>d. d = ''music''),
      rglob_wav = (\<lambda>d. if d = ''music'' then ps else []), files = fs\<rparr>"

definition three_files :: filesystem where
  "three_files =
     tree [''a.wav'', ''b.wav'', ''c.wav'']
       [''a.wav'' \<mapsto> plain_file pcm_bytes, ''b.wav'' \<mapsto> plain_file extensible_bytes,
        ''c.wav'' \<mapsto> plain_file extensible_bytes]"

text \<open>A file of four bytes, and a directory without any \<open>.wav\<close> file.\<close>

definition short_tree :: filesystem where
  "short_tree = tree [''s.wav''] [''s.wav'' \<mapsto> plain_file [82, 73, 70, 70]]"

definition empty_tree :: filesystem where
  "empty_tree = tree [] Map.empty"

text \<open>
  A file with the extensible tag on which the write raises before any byte reaches it, and
  one that can be opened for reading only.
\<close>

definition failing_write :: wav_file where
  "failing_write =
     (plain_file extensible_bytes)\<lparr>write_raises := Some (OtherException ''Input/output error'', 0)\<rparr>"

definition io_error_tree :: filesystem where
  "io_error_tree = tree [''a.wav''] [''a.wav'' \<mapsto> failing_write]"

definition read_only_tree :: filesystem where
  "read_only_tree =
     tree [''r.wav'']
       [''r.wav'' \<mapsto> (plain_file extensible_bytes)\<lparr>open_rb_plus := Some PermissionError\<rparr>]"




text \<open>The tree that a run leaves behind: the same paths, with the bytes the run wrote.\<close>

definition after_run :: "filesystem \<Rightarrow> path \<Rightarrow> bool \<Rightarrow> bool \<Rightarrow> filesystem" where
  "after_run fs d simulate verbose = fs\<lparr>files := fst (snd (patch_wav_files fs d simulate verbose))\<rparr>"

section \<open>One iteration\<close>

lemma from_bytes_little_simps:
  "from_bytes_little [] = 0"
  "from_bytes_little (b # bs) = uint b + 256 * from_bytes_little bs"
  by (simp_all add: from_bytes_little_def)

lemma byte_pair_65534:
  fixes a b :: byte
  shows "uint a + 256 * uint b = 65534 \<longleftrightarrow> a = 254 \<and> b = 255"
proof
  assume h: "uint a + 256 * uint b = 65534"
  have ba: "uint a < 256" "0 \<le> uint a" and bb: "uint b < 256" "0 \<le> uint b"
    using uint_lt2p [of a] uint_lt2p [of b] by simp_all
  have "254 < uint b" using h ba by linarith
  then have ub: "uint b = 255" using bb by linarith
  then have ua: "uint a = 254" using h by linarith
  have "word_of_int (uint a) = (254 :: byte)" "word_of_int (uint b) = (255 :: byte)"
    unfolding ua ub by simp_all
  then show "a = 254 \<and> b = 255" by simp
next
  assume "a = 254 \<and> b = 255"
  then show "uint a + 256 * uint b = 65534" by simp
qed

lemma format_tag_65534:
  "format_tag c = 65534 \<longleftrightarrow> 22 \<le> length c \<and> c ! 20 = 254 \<and> c ! 21 = 255"
proof (cases "22 \<le> length c")
  case True
  then have "take 2 (drop 20 c) = [c ! 20, c ! 21]"
    by (simp add: take_Suc_conv_app_nth numeral_2_eq_2)
  then show ?thesis using True
    by (simp add: format_tag_def from_bytes_little_simps byte_pair_65534)
next
  case False
  define xs where "xs = take 2 (drop 20 c)"
  have "length xs < 2" using False by (simp add: xs_def)
  then have cases: "xs = [] \<or> (\<exists>a. xs = [a])"
    by (cases xs) (auto simp: length_Suc_conv)
  have small: "uint a \<noteq> 65534" for a :: byte
    using uint_lt2p [of a] by simp
  have "from_bytes_little xs \<noteq> 65534"
    using cases small by (auto simp: from_bytes_little_simps)
  then show ?thesis using False unfolding format_tag_def xs_def by simp
qed


lemma read_format_id_eq:
  "read_format_id f \<lparr>buf = content f, pos = 0\<rparr> =
     (case read_raises f of
        Some e \<Rightarrow> Inl e
      | None \<Rightarrow> Inr (format_tag (content f),
                      \<lparr>buf = content f, pos = 20 + length (take 2 (drop 20 (content f)))\<rparr>))"
  by (simp add: read_format_id_def read_bytes_def seek_set_def format_tag_def Let_def
      split: option.splits)

lemma patch_header_eq:
  assumes "22 \<le> length c"
  shows "patch_header f \<lparr>buf = c, pos = 22\<rparr> =
     (case write_raises f of None \<Rightarrow> None | Some (e, k) \<Rightarrow> Some e,
      \<lparr>buf = take 20 c @ written f @ drop (20 + length (written f)) c,
       pos = 20 + length (written f)\<rparr>)"
  using assms
  by (simp add: patch_header_def seek_cur_def write_bytes_def written_def split: option.splits)

lemma with_open_eq:
  "with_open simulate verbose p s =
     (case disk s p of
        None \<Rightarrow> (Some (OtherException ''No such file or directory''), s)
      | Some f \<Rightarrow>
          if \<not> opens simulate f then ((if simulate then open_rb f else open_rb_plus f), s)
          else if read_raises f \<noteq> None then (read_raises f, s)
          else if format_tag (content f) \<noteq> 65534 then (None, s)
          else
            (let s2 = print_line verbose (if simulate then Found p else Patched p)
                        (s\<lparr>extensible_files := extensible_files s + 1,
                           patched_file_list := patched_file_list s @ [p]\<rparr>)
             in if simulate then (None, s2)
                else (case write_raises f of None \<Rightarrow> None | Some (e, k) \<Rightarrow> Some e,
                      s2\<lparr>disk := (disk s)(p \<mapsto> overwrite f)\<rparr>)))"
proof (cases "disk s p")
  case None
  then show ?thesis by (simp add: with_open_def open_file_def)
next
  case (Some f)
  show ?thesis
  proof (cases "opens simulate f \<and> read_raises f = None \<and> format_tag (content f) = 65534")
    case False
    then show ?thesis using Some
      by (auto simp: with_open_def open_file_def opens_def read_format_id_eq
          split: option.splits if_splits)
  next
    case True
    then have len: "22 \<le> length (content f)" by (simp add: format_tag_65534)
    then have pos: "min (length (content f) - 20) 2 = 2" by simp
    show ?thesis using Some True
      by (auto simp: with_open_def open_file_def opens_def read_format_id_eq pos
          patch_header_eq [OF len] close_file_def overwrite_def Let_def print_line_def
          split: option.splits if_splits)
  qed
qed


lemma format_tag_le16: "format_tag c = 65534 \<longleftrightarrow> le16_at 20 c = Some 65534"
  by (simp add: format_tag_65534 le16_at_def byte_pair_65534)

lemma matches_iff:
  "matches simulate fs p \<longleftrightarrow>
     (\<exists>f. fs p = Some f \<and> opens simulate f \<and> read_raises f = None
          \<and> format_tag (content f) = 65534)"
  by (auto simp: matches_def readable_def format_tag_le16 split: option.splits)

lemma print_line_fields [simp]:
  "disk (print_line c l s) = disk s"
  "extensible_files (print_line c l s) = extensible_files s"
  "patched_file_list (print_line c l s) = patched_file_list s"
  by (simp_all add: print_line_def)

lemma with_open_no_match:
  assumes "\<not> matches simulate (disk s) p"
  shows "snd (with_open simulate verbose p s) = s"
proof (cases "disk s p")
  case None
  then show ?thesis by (simp add: with_open_eq)
next
  case (Some f)
  with assms have "\<not> opens simulate f \<or> read_raises f \<noteq> None \<or> format_tag (content f) \<noteq> 65534"
    by (simp add: matches_iff)
  then show ?thesis using Some by (auto simp: with_open_eq)
qed

lemma with_open_match:
  assumes "matches simulate (disk s) p"
  shows "snd (with_open simulate verbose p s) =
           (print_line verbose (if simulate then Found p else Patched p)
              (s\<lparr>extensible_files := extensible_files s + 1,
                 patched_file_list := patched_file_list s @ [p]\<rparr>))
           \<lparr>disk := (if simulate then disk s
                      else (disk s)(p := map_option overwrite (disk s p)))\<rparr>"
proof -
  from assms obtain f where f: "disk s p = Some f" "opens simulate f" "read_raises f = None"
    "format_tag (content f) = 65534"
    by (auto simp: matches_iff)
  show ?thesis
  proof (cases simulate)
    case True
    then show ?thesis using f by (simp add: with_open_eq Let_def print_line_def)
  next
    case False
    then show ?thesis using f by (simp add: with_open_eq Let_def)
  qed
qed

lemma process_file_print:
  "\<exists>c l. process_file simulate verbose t i p s =
           print_line c l (snd (with_open simulate verbose p s))"
proof (cases "with_open simulate verbose p s")
  case (Pair r s')
  then show ?thesis
    by (cases r) (auto simp: process_file_def split: exn.splits)
qed

lemma process_file_extensible:
  "extensible_files (process_file simulate verbose t i p s) =
     extensible_files s + (if matches simulate (disk s) p then 1 else 0)"
proof -
  obtain c l where "process_file simulate verbose t i p s =
      print_line c l (snd (with_open simulate verbose p s))"
    using process_file_print by blast
  then show ?thesis
    by (cases "matches simulate (disk s) p") (simp_all add: with_open_no_match with_open_match)
qed

lemma process_file_patched:
  "patched_file_list (process_file simulate verbose t i p s) =
     patched_file_list s @ (if matches simulate (disk s) p then [p] else [])"
proof -
  obtain c l where "process_file simulate verbose t i p s =
      print_line c l (snd (with_open simulate verbose p s))"
    using process_file_print by blast
  then show ?thesis
    by (cases "matches simulate (disk s) p") (simp_all add: with_open_no_match with_open_match)
qed

lemma process_file_disk:
  "disk (process_file simulate verbose t i p s) =
     (if \<not> simulate \<and> matches simulate (disk s) p
      then (disk s)(p := map_option overwrite (disk s p)) else disk s)"
proof -
  obtain c l where "process_file simulate verbose t i p s =
      print_line c l (snd (with_open simulate verbose p s))"
    using process_file_print by blast
  then show ?thesis
    by (cases "matches simulate (disk s) p") (simp_all add: with_open_no_match with_open_match)
qed

section \<open>The loop\<close>

lemma scan_loop_count_list:
  "extensible_files (scan_loop simulate verbose t i ps s) + length (patched_file_list s) =
     extensible_files s + length (patched_file_list (scan_loop simulate verbose t i ps s))"
proof (induction ps arbitrary: s i)
  case Nil
  show ?case by simp
next
  case (Cons p ps)
  show ?case
    using Cons.IH [of "Suc i" "process_file simulate verbose t i p s"]
    by (simp add: process_file_extensible process_file_patched split: if_splits)
qed

lemma scan_loop_bound:
  "extensible_files (scan_loop simulate verbose t i ps s) \<le> extensible_files s + length ps"
proof (induction ps arbitrary: s i)
  case Nil
  show ?case by simp
next
  case (Cons p ps)
  have "extensible_files (scan_loop simulate verbose t (Suc i) ps (process_file simulate verbose t i p s))
          \<le> extensible_files (process_file simulate verbose t i p s) + length ps"
    by (rule Cons.IH)
  also have "\<dots> \<le> extensible_files s + 1 + length ps"
    by (simp add: process_file_extensible)
  finally show ?case by simp
qed


lemma matches_cong: "fs q = fs' q \<Longrightarrow> matches simulate fs q = matches simulate fs' q"
  by (auto simp: matches_def readable_def split: option.splits)


lemma scan_loop_no_match:
  "\<not> matches simulate (disk s) q \<Longrightarrow> disk (scan_loop simulate v t i ps s) q = disk s q"
proof (induction ps arbitrary: s i)
  case Nil
  show ?case by simp
next
  case (Cons p ps)
  let ?s1 = "process_file simulate v t i p s"
  have same: "disk ?s1 q = disk s q"
    using Cons.prems by (auto simp: process_file_disk)
  then have "\<not> matches simulate (disk ?s1) q"
    using Cons.prems
      matches_cong [of "disk ?s1" q "disk s" simulate, OF same] by simp
  then have "disk (scan_loop simulate v t (Suc i) ps ?s1) q = disk ?s1 q"
    by (rule Cons.IH)
  then show ?case using same by simp
qed

lemma matches_length: "matches simulate fs p \<Longrightarrow> fs p = Some f \<Longrightarrow> 22 \<le> length (content f)"
  by (simp add: matches_def le16_at_def split: if_splits)

lemma length_written: "length (written f) \<le> 2"
  by (auto simp: written_def split: option.splits)

lemma overwrite_same_outside:
  assumes "22 \<le> length (content f)"
  shows "same_outside_tag f (overwrite f)"
proof -
  have w: "length (written f) \<le> 2" by (rule length_written)
  have "drop 22 (take 20 (content f) @ written f @ drop (20 + length (written f)) (content f))
          = drop 22 (content f)"
    using assms w by (simp add: add.commute)
  then show ?thesis
    using assms w by (simp add: same_outside_tag_def overwrite_def)
qed

lemma same_outside_refl: "same_outside_tag f f"
  by (simp add: same_outside_tag_def)

lemma same_outside_trans:
  "same_outside_tag f g \<Longrightarrow> same_outside_tag g h \<Longrightarrow> same_outside_tag f h"
  unfolding same_outside_tag_def
  by (metis wav_file.surjective wav_file.update_convs(1))

lemma process_file_frame:
  "rel_option same_outside_tag (disk s q) (disk (process_file simulate v t i p s) q)"
proof (cases "\<not> simulate \<and> matches simulate (disk s) p \<and> q = p")
  case False
  then have "disk (process_file simulate v t i p s) q = disk s q"
    by (auto simp: process_file_disk)
  then show ?thesis by (simp add: option.rel_refl same_outside_refl)
next
  case True
  then obtain f where f: "disk s p = Some f" by (auto simp: matches_def split: option.splits)
  with True have "22 \<le> length (content f)" using matches_length by blast
  then show ?thesis using True f by (auto simp: process_file_disk overwrite_same_outside)
qed

lemma rel_option_same_outside_trans:
  "rel_option same_outside_tag a b \<Longrightarrow> rel_option same_outside_tag b c
     \<Longrightarrow> rel_option same_outside_tag a c"
  by (cases a; cases b; cases c) (auto intro: same_outside_trans)

lemma scan_loop_frame:
  "rel_option same_outside_tag (disk s q) (disk (scan_loop simulate v t i ps s) q)"
proof (induction ps arbitrary: s i)
  case Nil
  show ?case by (simp add: option.rel_refl same_outside_refl)
next
  case (Cons p ps)
  show ?case
    unfolding scan_loop.simps
    by (rule rel_option_same_outside_trans [OF process_file_frame Cons.IH])
qed

lemma scan_loop_distinct:
  assumes "distinct ps"
  shows "patched_file_list (scan_loop simulate v t i ps s)
           = patched_file_list s @ filter (matches simulate (disk s)) ps
       \<and> disk (scan_loop simulate v t i ps s)
           = (\<lambda>q. if \<not> simulate \<and> q \<in> set ps \<and> matches simulate (disk s) q
                  then map_option overwrite (disk s q) else disk s q)"
  using assms
proof (induction ps arbitrary: s i)
  case Nil
  show ?case by simp
next
  case (Cons p ps)
  let ?s1 = "process_file simulate v t i p s"
  from Cons.prems have p: "p \<notin> set ps" and d: "distinct ps" by simp_all
  have other: "disk ?s1 q = disk s q" if "q \<noteq> p" for q
    using that by (simp add: process_file_disk)
  have same: "matches simulate (disk ?s1) q = matches simulate (disk s) q" if "q \<in> set ps" for q
  proof -
    from that p have "q \<noteq> p" by blast
    then have "disk ?s1 q = disk s q" by (rule other)
    then show ?thesis by (rule matches_cong)
  qed
  have filt: "filter (matches simulate (disk ?s1)) ps = filter (matches simulate (disk s)) ps"
    by (rule filter_cong) (simp_all add: same)
  note IH = Cons.IH [OF d, of "Suc i" ?s1]
  have list: "patched_file_list (scan_loop simulate v t i (p # ps) s)
           = patched_file_list s @ filter (matches simulate (disk s)) (p # ps)"
    using IH filt by (simp add: process_file_patched)
  have disk: "disk (scan_loop simulate v t i (p # ps) s) q
           = (if \<not> simulate \<and> q \<in> set (p # ps) \<and> matches simulate (disk s) q
                  then map_option overwrite (disk s q) else disk s q)" for q
  proof (cases "q = p")
    case True
    then show ?thesis using IH p by (auto simp: process_file_disk)
  next
    case False
    have d1: "disk ?s1 q = disk s q" by (rule other [OF False])
    have m1: "matches simulate (disk ?s1) q = matches simulate (disk s) q"
      by (rule matches_cong) (rule d1)
    have "disk (scan_loop simulate v t (Suc i) ps ?s1) q
            = (if \<not> simulate \<and> q \<in> set ps \<and> matches simulate (disk ?s1) q
               then map_option overwrite (disk ?s1 q) else disk ?s1 q)"
      using IH by simp
    then show ?thesis
      unfolding d1 m1 using False by (cases simulate) simp_all
  qed
  from list disk show ?case by blast
qed

section \<open>The whole run\<close>

lemma patch_wav_files_scan:
  assumes "path_exists fs d" "rglob_wav fs d \<noteq> []"
  shows "patch_wav_files fs d simulate verbose =
     (let s = scan_loop simulate verbose (length (rglob_wav fs d)) 1 (rglob_wav fs d)
                \<lparr>disk = files fs, extensible_files = 0, patched_file_list = [],
                   printed = (if verbose then [Banner simulate d (length (rglob_wav fs d))] else [])\<rparr>
      in (\<lparr>res_total_files = length (rglob_wav fs d),
           res_extensible_files = extensible_files s,
           res_patched_files = patched_file_list s,
           res_success = True, res_error = None, res_message = None\<rparr>,
          disk s, printed s))"
  using assms by (simp add: patch_wav_files_def Let_def)

lemma patch_wav_files_count:
  "res_extensible_files (fst (patch_wav_files fs d simulate verbose))
     = length (res_patched_files (fst (patch_wav_files fs d simulate verbose)))"
proof (cases "path_exists fs d \<and> rglob_wav fs d \<noteq> []")
  case False
  then show ?thesis by (auto simp: patch_wav_files_def Let_def)
next
  case True
  let ?s0 = "\<lparr>disk = files fs, extensible_files = 0, patched_file_list = [],
     printed = (if verbose then [Banner simulate d (length (rglob_wav fs d))] else [])\<rparr>"
  show ?thesis
    using True
      scan_loop_count_list [of simulate verbose "length (rglob_wav fs d)" 1 "rglob_wav fs d" ?s0]
    by (simp add: patch_wav_files_scan Let_def)
qed

section \<open>Claims about the returned result\<close>

text \<open>
  C4. For every invocation, in each of the three ways \<open>patch_wav_files\<close> returns, the
  \<open>extensible_files\<close> of the result is the length of its \<open>patched_files\<close>, and
  \<open>total_files\<close> is at least \<open>extensible_files\<close>.
\<close>

theorem result_invariant:
  "res_extensible_files (fst (patch_wav_files fs d simulate verbose))
     = length (res_patched_files (fst (patch_wav_files fs d simulate verbose)))
   \<and> res_extensible_files (fst (patch_wav_files fs d simulate verbose))
     \<le> res_total_files (fst (patch_wav_files fs d simulate verbose))"
proof (cases "path_exists fs d \<and> rglob_wav fs d \<noteq> []")
  case False
  then show ?thesis by (auto simp: patch_wav_files_def Let_def)
next
  case True
  let ?s0 = "\<lparr>disk = files fs, extensible_files = 0, patched_file_list = [],
     printed = (if verbose then [Banner simulate d (length (rglob_wav fs d))] else [])\<rparr>"
  show ?thesis
    using True
      scan_loop_count_list [of simulate verbose "length (rglob_wav fs d)" 1 "rglob_wav fs d" ?s0]
      scan_loop_bound [of simulate verbose "length (rglob_wav fs d)" 1 "rglob_wav fs d" ?s0]
    by (simp add: patch_wav_files_scan Let_def)
qed


lemma le16_pcm: "le16_at 20 pcm_bytes = Some 1"
  by (simp add: le16_at_def pcm_bytes_def nth_append)

lemma le16_extensible: "le16_at 20 extensible_bytes = Some 65534"
  by (simp add: le16_at_def extensible_bytes_def nth_append)

lemma matches_plain:
  "fs p = Some (plain_file c) \<Longrightarrow> matches simulate fs p = (le16_at 20 c = Some 65534)"
  by (simp add: matches_def readable_def opens_def plain_file_def)

section \<open>Claims about classification\<close>

text \<open>
  C1. For every discovered file that is opened and read without an error, the scan seeks to
  offset 20, reads two bytes and takes them as an unsigned little-endian 16-bit integer;
  the file matches exactly when that integer is 65534. The paths of the matching files,
  in discovery order, are the \<open>patched_files\<close> of the result, and their number is its
  \<open>extensible_files\<close>, the discovered paths being pairwise different, as the paths of a
  directory walk are. In every iteration, whatever the list, the counter grows by one and
  the path is appended exactly when the file matches at that moment.
\<close>

theorem scan_classifies:
  assumes "path_exists fs d" and "distinct (rglob_wav fs d)"
  shows "res_patched_files (fst (patch_wav_files fs d simulate verbose))
           = filter (matches simulate (files fs)) (rglob_wav fs d)
       \<and> res_extensible_files (fst (patch_wav_files fs d simulate verbose))
           = length (filter (matches simulate (files fs)) (rglob_wav fs d))
       \<and> (\<forall>f. read_raises f = None \<and> 22 \<le> length (content f) \<longrightarrow>
             read_format_id f \<lparr>buf = content f, pos = 0\<rparr>
               = Inr (uint (content f ! 20) + 256 * uint (content f ! 21),
                      \<lparr>buf = content f, pos = 22\<rparr>))
       \<and> (\<forall>s t i p.
             extensible_files (process_file simulate verbose t i p s)
               = extensible_files s + (if matches simulate (disk s) p then 1 else 0)
             \<and> patched_file_list (process_file simulate verbose t i p s)
               = patched_file_list s @ (if matches simulate (disk s) p then [p] else []))"
proof -
  let ?r = "fst (patch_wav_files fs d simulate verbose)"
  have list: "res_patched_files ?r = filter (matches simulate (files fs)) (rglob_wav fs d)"
  proof (cases "rglob_wav fs d = []")
    case True
    then show ?thesis using assms(1) by (simp add: patch_wav_files_def)
  next
    case False
    then show ?thesis
      using assms(1) scan_loop_distinct [OF assms(2)]
      by (simp add: patch_wav_files_scan Let_def)
  qed
  have count: "res_extensible_files ?r = length (res_patched_files ?r)"
    by (rule patch_wav_files_count)
  have tag: "read_format_id f \<lparr>buf = content f, pos = 0\<rparr>
               = Inr (uint (content f ! 20) + 256 * uint (content f ! 21),
                      \<lparr>buf = content f, pos = 22\<rparr>)"
    if "read_raises f = None" "22 \<le> length (content f)" for f
  proof -
    have "take 2 (drop 20 (content f)) = [content f ! 20, content f ! 21]"
      using that(2) by (simp add: take_Suc_conv_app_nth numeral_2_eq_2)
    then show ?thesis
      using that by (simp add: read_format_id_eq format_tag_def from_bytes_little_simps)
  qed
  have step: "extensible_files (process_file simulate verbose t i p s)
               = extensible_files s + (if matches simulate (disk s) p then 1 else 0)
             \<and> patched_file_list (process_file simulate verbose t i p s)
               = patched_file_list s @ (if matches simulate (disk s) p then [p] else [])"
    for s t i p
    unfolding process_file_extensible process_file_patched by (rule conjI) (rule refl)+
  from list count tag step show ?thesis by simp
qed

theorem scan_classifies_witness:
  "res_patched_files (fst (patch_wav_files three_files ''music'' True False)) = [''b.wav'', ''c.wav'']
   \<and> res_extensible_files (fst (patch_wav_files three_files ''music'' True False)) = 2"
proof -
  have e: "path_exists three_files ''music''" by (simp add: three_files_def tree_def)
  have d: "distinct (rglob_wav three_files ''music'')" by (simp add: three_files_def tree_def)
  show ?thesis
    using scan_classifies [OF e d, of True False]
    by (simp add: three_files_def tree_def matches_plain le16_pcm le16_extensible)
qed

section \<open>Files that do not match\<close>

lemma process_file_disk_no_match:
  "\<not> matches simulate (disk s) q \<Longrightarrow> disk (process_file simulate v t i p s) q = disk s q"
  by (auto simp: process_file_disk)

lemma scan_loop_patched_subset:
  "set (patched_file_list (scan_loop simulate v t i ps s))
     \<subseteq> set (patched_file_list s) \<union> {q. matches simulate (disk s) q}"
proof (induction ps arbitrary: s i)
  case Nil
  show ?case by simp
next
  case (Cons p ps)
  let ?s1 = "process_file simulate v t i p s"
  have keep: "matches simulate (disk s) q" if "matches simulate (disk ?s1) q" for q
  proof (rule ccontr)
    assume n: "\<not> matches simulate (disk s) q"
    then have "disk ?s1 q = disk s q" by (rule process_file_disk_no_match)
    then have "matches simulate (disk ?s1) q = matches simulate (disk s) q"
      by (rule matches_cong)
    with n that show False by simp
  qed
  have "set (patched_file_list (scan_loop simulate v t (Suc i) ps ?s1))
          \<subseteq> set (patched_file_list ?s1) \<union> {q. matches simulate (disk ?s1) q}"
    by (rule Cons.IH)
  also have "\<dots> \<subseteq> set (patched_file_list s) \<union> {q. matches simulate (disk s) q}"
    using keep by (auto simp: process_file_patched split: if_splits)
  finally show ?case by simp
qed

lemma short_no_match:
  "fs p = Some f \<Longrightarrow> length (content f) < 22 \<Longrightarrow> \<not> matches simulate fs p"
  by (simp add: matches_def le16_at_def)

lemma patch_wav_files_patched_subset:
  "set (res_patched_files (fst (patch_wav_files fs d simulate verbose)))
     \<subseteq> {q. matches simulate (files fs) q}"
proof (cases "path_exists fs d \<and> rglob_wav fs d \<noteq> []")
  case False
  then show ?thesis by (auto simp: patch_wav_files_def Let_def)
next
  case True
  let ?s0 = "\<lparr>disk = files fs, extensible_files = 0, patched_file_list = [],
     printed = (if verbose then [Banner simulate d (length (rglob_wav fs d))] else [])\<rparr>"
  show ?thesis
    using True
      scan_loop_patched_subset [of simulate verbose "length (rglob_wav fs d)" 1 "rglob_wav fs d" ?s0]
    by (simp add: patch_wav_files_scan Let_def)
qed

lemma patch_wav_files_no_match:
  assumes "\<not> matches simulate (files fs) q"
  shows "fst (snd (patch_wav_files fs d simulate verbose)) q = files fs q"
proof (cases "path_exists fs d \<and> rglob_wav fs d \<noteq> []")
  case False
  then show ?thesis by (auto simp: patch_wav_files_def Let_def)
next
  case True
  let ?s0 = "\<lparr>disk = files fs, extensible_files = 0, patched_file_list = [],
     printed = (if verbose then [Banner simulate d (length (rglob_wav fs d))] else [])\<rparr>"
  have "\<not> matches simulate (disk ?s0) q" using assms by simp
  then have "disk (scan_loop simulate verbose (length (rglob_wav fs d)) 1 (rglob_wav fs d) ?s0) q
               = disk ?s0 q"
    by (rule scan_loop_no_match)
  then show ?thesis using True by (simp add: patch_wav_files_scan Let_def)
qed

lemma patch_wav_files_success:
  "res_success (fst (patch_wav_files fs d simulate verbose)) = path_exists fs d"
  by (simp add: patch_wav_files_def Let_def)

section \<open>Claims about edge cases and errors\<close>

text \<open>
  C5. A file shorter than 22 bytes gives fewer than two bytes to the read at offset 20. It
  is not a match: its path is not in \<open>patched_files\<close>, the iteration that visits it leaves
  the counter, the list and the disk as they were and raises nothing of its own, the file
  is never written, and the run returns its result as for any other tree.
\<close>

theorem short_file_skipped:
  assumes "files fs p = Some f" and "length (content f) < 22"
  shows "length (fst (read_bytes 2 (seek_set 20 \<lparr>buf = content f, pos = 0\<rparr>))) < 2
       \<and> p \<notin> set (res_patched_files (fst (patch_wav_files fs d simulate verbose)))
       \<and> fst (snd (patch_wav_files fs d simulate verbose)) p = Some f
       \<and> res_success (fst (patch_wav_files fs d simulate verbose)) = path_exists fs d
       \<and> (\<forall>s. disk s = files fs \<longrightarrow>
             snd (with_open simulate verbose p s) = s
             \<and> extensible_files (process_file simulate verbose t i p s) = extensible_files s
             \<and> patched_file_list (process_file simulate verbose t i p s) = patched_file_list s
             \<and> disk (process_file simulate verbose t i p s) = disk s)"
proof -
  have n: "\<not> matches simulate (files fs) p"
    using assms by (rule short_no_match)
  have r: "length (fst (read_bytes 2 (seek_set 20 \<lparr>buf = content f, pos = 0\<rparr>))) < 2"
    using assms(2) by (simp add: read_bytes_def seek_set_def Let_def)
  have l: "p \<notin> set (res_patched_files (fst (patch_wav_files fs d simulate verbose)))"
    using n patch_wav_files_patched_subset [of fs d simulate verbose] by blast
  have k: "fst (snd (patch_wav_files fs d simulate verbose)) p = Some f"
    using patch_wav_files_no_match [OF n] assms(1) by simp
  have st: "snd (with_open simulate verbose p s) = s
             \<and> extensible_files (process_file simulate verbose t i p s) = extensible_files s
             \<and> patched_file_list (process_file simulate verbose t i p s) = patched_file_list s
             \<and> disk (process_file simulate verbose t i p s) = disk s"
    if "disk s = files fs" for s
    using n that
    by (simp add: with_open_no_match process_file_extensible process_file_patched
        process_file_disk)
  from r l k st show ?thesis by (simp add: patch_wav_files_success)
qed

theorem short_file_skipped_witness:
  "''s.wav'' \<notin> set (res_patched_files (fst (patch_wav_files short_tree ''music'' False True)))
   \<and> fst (snd (patch_wav_files short_tree ''music'' False True)) ''s.wav''
       = Some (plain_file [82, 73, 70, 70])
   \<and> res_success (fst (patch_wav_files short_tree ''music'' False True))"
proof -
  have f: "files short_tree ''s.wav'' = Some (plain_file [82, 73, 70, 70])"
    by (simp add: short_tree_def tree_def)
  have l: "length (content (plain_file [82, 73, 70, 70])) < 22"
    by (simp add: plain_file_def)
  show ?thesis
    using short_file_skipped [OF f l, of "''music''" False True]
    by (simp add: short_tree_def tree_def)
qed

text \<open>
  C6. When the root path does not exist, \<open>patch_wav_files\<close> returns zero counts, an empty
  list, \<open>success = False\<close> and an error message that ends with the path; \<open>main\<close> exits
  with code 1, printing one line to standard error, and the files are left as they were.
\<close>

theorem missing_directory:
  assumes "\<not> path_exists fs d"
  shows "patch_wav_files fs d simulate verbose =
           (\<lparr>res_total_files = 0, res_extensible_files = 0, res_patched_files = [],
             res_success = False, res_error = Some (''Directory does not exist: '' @ d),
             res_message = None\<rparr>, files fs, [])
       \<and> main \<lparr>directory = d, patch = pa, quiet = qu, list_flag = li\<rparr> fs =
           \<lparr>exit_code = 1, disk_after = files fs, stdout = [], stderr = [ErrNotExist d]\<rparr>"
  using assms by (simp add: patch_wav_files_def main_def)

theorem missing_directory_witness:
  "res_success (fst (patch_wav_files three_files ''nowhere'' False True)) = False
   \<and> res_error (fst (patch_wav_files three_files ''nowhere'' False True))
       = Some ''Directory does not exist: nowhere''
   \<and> exit_code (main \<lparr>directory = ''nowhere'', patch = True, quiet = False, list_flag = False\<rparr>
        three_files) = 1
   \<and> disk_after (main \<lparr>directory = ''nowhere'', patch = True, quiet = False, list_flag = False\<rparr>
        three_files) = files three_files"
proof -
  have n: "\<not> path_exists three_files ''nowhere''" by (simp add: three_files_def tree_def)
  show ?thesis
    using missing_directory [OF n, of False True True False False] by simp
qed

text \<open>
  C8. When the root is an existing directory under which no \<open>.wav\<close> file is discovered,
  \<open>patch_wav_files\<close> returns zero counts, an empty list, \<open>success = True\<close> and the message
  \<open>No WAV files found\<close>, and \<open>main\<close> exits with code 0.
\<close>

theorem no_wav_files:
  assumes "path_exists fs d" and "path_is_dir fs d" and "rglob_wav fs d = []"
  shows "patch_wav_files fs d simulate verbose =
           (\<lparr>res_total_files = 0, res_extensible_files = 0, res_patched_files = [],
             res_success = True, res_error = None,
             res_message = Some ''No WAV files found''\<rparr>,
            files fs, (if verbose then [NoWavFound] else []))
       \<and> exit_code (main \<lparr>directory = d, patch = pa, quiet = qu, list_flag = li\<rparr> fs) = 0"
  using assms by (simp add: patch_wav_files_def main_def)

theorem no_wav_files_witness:
  "res_total_files (fst (patch_wav_files empty_tree ''music'' True True)) = 0
   \<and> res_success (fst (patch_wav_files empty_tree ''music'' True True))
   \<and> res_message (fst (patch_wav_files empty_tree ''music'' True True)) = Some ''No WAV files found''
   \<and> exit_code (main \<lparr>directory = ''music'', patch = False, quiet = False, list_flag = True\<rparr>
        empty_tree) = 0"
proof -
  have e: "path_exists empty_tree ''music''" by (simp add: empty_tree_def tree_def)
  have i: "path_is_dir empty_tree ''music''" by (simp add: empty_tree_def tree_def)
  have g: "rglob_wav empty_tree ''music'' = []" by (simp add: empty_tree_def tree_def)
  show ?thesis
    using no_wav_files [OF e i g, of True True False False True] by simp
qed

section \<open>Patched bytes\<close>


lemma overwrite_failing_write: "overwrite failing_write = failing_write"
  by (simp add: overwrite_def written_def failing_write_def plain_file_def)

lemma io_error_run:
  "patch_wav_files io_error_tree ''music'' False False =
     (\<lparr>res_total_files = 1, res_extensible_files = 1, res_patched_files = [''a.wav''],
       res_success = True, res_error = None, res_message = None\<rparr>,
      [''a.wav'' \<mapsto> failing_write], [])"
  by (simp add: io_error_tree_def tree_def patch_wav_files_def process_file_def with_open_eq
      opens_def failing_write_def plain_file_def print_line_def overwrite_def written_def
      format_tag_le16 le16_extensible Let_def)


lemma patched_bytes:
  assumes "22 \<le> length c"
  shows "take 20 c @ [a, b] @ drop 22 c = c[20 := a, 21 := b]"
proof -
  have "c[20 := a] = take 20 c @ a # drop 21 c"
    using assms by (simp add: upd_conv_take_nth_drop)
  moreover have "(take 20 c @ a # drop 21 c)[21 := b] = take 20 c @ a # (drop 21 c)[0 := b]"
    using assms by (simp add: list_update_append)
  moreover have "(drop 21 c)[0 := b] = b # drop 22 c"
    using assms by (simp add: upd_conv_take_nth_drop)
  ultimately show ?thesis by simp
qed

lemma overwrite_ok:
  assumes "write_raises f = None" and "22 \<le> length (content f)"
  shows "overwrite f = f\<lparr>content := (content f)[20 := 1, 21 := 0]\<rparr>"
  using assms patched_bytes [OF assms(2), of 1 0]
  by (simp add: overwrite_def written_def)

lemma patched_no_match:
  assumes "22 \<le> length (content f)"
  shows "\<not> matches simulate (fs(p \<mapsto> f\<lparr>content := (content f)[20 := 1, 21 := 0]\<rparr>)) p"
  using assms by (simp add: matches_def le16_at_def)


lemma patch_wav_files_loop:
  assumes "path_exists fs d"
  obtains t i s0 where "disk s0 = files fs" and "extensible_files s0 = 0"
    and "patched_file_list s0 = []"
    and "fst (snd (patch_wav_files fs d simulate verbose))
           = disk (scan_loop simulate verbose t i (rglob_wav fs d) s0)"
    and "res_patched_files (fst (patch_wav_files fs d simulate verbose))
           = patched_file_list (scan_loop simulate verbose t i (rglob_wav fs d) s0)"
    and "res_extensible_files (fst (patch_wav_files fs d simulate verbose))
           = extensible_files (scan_loop simulate verbose t i (rglob_wav fs d) s0)"
proof (cases "rglob_wav fs d = []")
  case True
  let ?s0 = "\<lparr>disk = files fs, extensible_files = 0, patched_file_list = [], printed = []\<rparr>"
  show ?thesis
    by (rule that [of ?s0 0 0]) (simp_all add: True assms patch_wav_files_def)
next
  case False
  let ?n = "length (rglob_wav fs d)"
  let ?s0 = "\<lparr>disk = files fs, extensible_files = 0, patched_file_list = [],
     printed = (if verbose then [Banner simulate d ?n] else [])\<rparr>"
  show ?thesis
    by (rule that [of ?s0 ?n 1])
      (simp_all add: patch_wav_files_scan [OF assms False] Let_def)
qed

section \<open>Claims about what a run writes\<close>







section \<open>A second run\<close>

lemma process_file_clears:
  assumes "\<forall>f. disk s p = Some f \<and> matches False (disk s) p \<longrightarrow> write_raises f = None"
  shows "\<not> matches False (disk (process_file False v t i p s)) p"
proof (cases "matches False (disk s) p")
  case False
  then have "disk (process_file False v t i p s) = disk s" by (simp add: process_file_disk)
  with False show ?thesis by simp
next
  case True
  then obtain f where f: "disk s p = Some f" by (auto simp: matches_iff)
  with assms True have w: "write_raises f = None" by blast
  have len: "22 \<le> length (content f)" using True f by (rule matches_length)
  have "disk (process_file False v t i p s)
          = (disk s)(p \<mapsto> f\<lparr>content := (content f)[20 := 1, 21 := 0]\<rparr>)"
    using True f overwrite_ok [OF w len] by (simp add: process_file_disk)
  then show ?thesis using patched_no_match [OF len] by simp
qed

lemma scan_loop_clears:
  assumes "\<forall>p\<in>set ps. \<forall>f. disk s p = Some f \<and> matches False (disk s) p \<longrightarrow> write_raises f = None"
  shows "\<forall>p\<in>set ps. \<not> matches False (disk (scan_loop False v t i ps s)) p"
  using assms
proof (induction ps arbitrary: s i)
  case Nil
  show ?case by simp
next
  case (Cons p ps)
  let ?s1 = "process_file False v t i p s"
  have a: "\<not> matches False (disk ?s1) p"
    using Cons.prems by (intro process_file_clears) simp
  have b: "\<forall>q\<in>set ps. \<forall>g. disk ?s1 q = Some g \<and> matches False (disk ?s1) q \<longrightarrow> write_raises g = None"
  proof (intro ballI allI impI)
    fix q g
    assume q: "q \<in> set ps" and g: "disk ?s1 q = Some g \<and> matches False (disk ?s1) q"
    with a have "q \<noteq> p" by blast
    then have d1: "disk ?s1 q = disk s q" by (simp add: process_file_disk)
    then have "matches False (disk ?s1) q = matches False (disk s) q" by (rule matches_cong)
    with g d1 have "disk s q = Some g \<and> matches False (disk s) q" by simp
    with Cons.prems q show "write_raises g = None" by auto
  qed
  have rest: "\<forall>q\<in>set ps. \<not> matches False (disk (scan_loop False v t (Suc i) ps ?s1)) q"
    using b by (rule Cons.IH)
  have "disk (scan_loop False v t (Suc i) ps ?s1) p = disk ?s1 p"
    using a by (rule scan_loop_no_match)
  then have "matches False (disk (scan_loop False v t (Suc i) ps ?s1)) p
               = matches False (disk ?s1) p"
    by (rule matches_cong)
  with a rest show ?case by simp
qed

lemma scan_loop_nothing:
  assumes "\<forall>p\<in>set ps. \<not> matches simulate (disk s) p"
  shows "extensible_files (scan_loop simulate v t i ps s) = extensible_files s"
  using assms
proof (induction ps arbitrary: s i)
  case Nil
  show ?case by simp
next
  case (Cons p ps)
  let ?s1 = "process_file simulate v t i p s"
  from Cons.prems have n: "\<not> matches simulate (disk s) p" by simp
  then have d1: "disk ?s1 = disk s" by (simp add: process_file_disk)
  have "extensible_files (scan_loop simulate v t (Suc i) ps ?s1) = extensible_files ?s1"
    using Cons.prems by (intro Cons.IH) (simp add: d1)
  then show ?case using n by (simp add: process_file_extensible)
qed

lemma same_outside_flags:
  "same_outside_tag f g \<Longrightarrow>
     open_rb g = open_rb f \<and> open_rb_plus g = open_rb_plus f \<and> read_raises g = read_raises f
     \<and> write_raises g = write_raises f"
  unfolding same_outside_tag_def
  by (metis wav_file.select_convs(2-5) wav_file.surjective wav_file.update_convs(1))

lemma read_only_run:
  "patch_wav_files read_only_tree ''music'' False False =
     (\<lparr>res_total_files = 1, res_extensible_files = 0, res_patched_files = [],
       res_success = True, res_error = None, res_message = None\<rparr>,
      files read_only_tree, [])"
  by (simp add: read_only_tree_def tree_def patch_wav_files_def process_file_def with_open_eq
      opens_def plain_file_def print_line_def Let_def)

lemma read_only_scan:
  "res_extensible_files (fst (patch_wav_files read_only_tree ''music'' True False)) = 1"
  by (simp add: read_only_tree_def tree_def patch_wav_files_def process_file_def with_open_eq
      opens_def plain_file_def print_line_def format_tag_le16 le16_extensible Let_def)

section \<open>Claims about running twice\<close>

text \<open>
  C3, as stated, fails in two ways. A file whose write raised in the first run still carries
  tag 65534, and the second patch run counts it again. A file that can be opened for
  reading but not for writing is skipped by the patch run, and a dry-run scan of the
  resulting tree counts it.
\<close>

theorem second_run_counterexample:
  "res_extensible_files
     (fst (patch_wav_files (after_run io_error_tree ''music'' False False) ''music'' False False)) = 1
   \<and> res_extensible_files
     (fst (patch_wav_files (after_run read_only_tree ''music'' False False) ''music'' True False)) = 1"
proof -
  have "after_run io_error_tree ''music'' False False = io_error_tree"
    by (simp add: after_run_def io_error_run) (simp add: io_error_tree_def tree_def)
  moreover have "after_run read_only_tree ''music'' False False = read_only_tree"
    by (simp add: after_run_def read_only_run)
  ultimately show ?thesis by (simp add: io_error_run read_only_scan)
qed

text \<open>
  C3, amended. If every write of the first patch run completes (no discovered file that
  matches raises on its write), then a second patch run over the resulting tree finds
  \<open>extensible_files = 0\<close>; a second run in simulate mode finds 0 as well, provided every
  discovered file that can be opened for reading can also be opened for writing.
\<close>

theorem second_run_finds_none:
  assumes "\<forall>p\<in>set (rglob_wav fs d). \<forall>f. files fs p = Some f \<and> matches False (files fs) p \<longrightarrow>
             write_raises f = None"
    and "simulate2 \<longrightarrow> (\<forall>p\<in>set (rglob_wav fs d). \<forall>f. files fs p = Some f \<and> open_rb f = None \<longrightarrow>
             open_rb_plus f = None)"
  shows "res_extensible_files
           (fst (patch_wav_files (after_run fs d False verbose1) d simulate2 verbose2)) = 0"
proof (cases "path_exists fs d")
  case False
  then show ?thesis by (simp add: patch_wav_files_def after_run_def)
next
  case True
  let ?fs' = "after_run fs d False verbose1"
  let ?ps = "rglob_wav fs d"
  obtain t i s0 where s0: "disk s0 = files fs"
    and d: "fst (snd (patch_wav_files fs d False verbose1)) = disk (scan_loop False verbose1 t i ?ps s0)"
    using patch_wav_files_loop [OF True] by metis
  have files': "files ?fs' = disk (scan_loop False verbose1 t i ?ps s0)"
    by (simp add: after_run_def d)
  have same: "path_exists ?fs' d" "rglob_wav ?fs' d = ?ps"
    using True by (simp_all add: after_run_def)
  have clear: "\<forall>p\<in>set ?ps. \<not> matches False (files ?fs') p"
    unfolding files' using assms(1) by (intro scan_loop_clears) (simp add: s0)
  have none: "\<forall>p\<in>set ?ps. \<not> matches simulate2 (files ?fs') p"
  proof (cases simulate2)
    case False
    with clear show ?thesis by simp
  next
    case sim: True
    show ?thesis
    proof (intro ballI notI)
      fix p
      assume p: "p \<in> set ?ps" and m: "matches simulate2 (files ?fs') p"
      from m obtain g where g: "files ?fs' p = Some g" "open_rb g = None" "read_raises g = None"
        "format_tag (content g) = 65534"
        using sim by (auto simp: matches_iff opens_def)
      have "rel_option same_outside_tag (files fs p) (files ?fs' p)"
        unfolding files' using scan_loop_frame [of s0 p False verbose1 t i ?ps] by (simp add: s0)
      then obtain f where f: "files fs p = Some f" "same_outside_tag f g"
        using g(1) by (cases "files fs p") auto
      from same_outside_flags [OF f(2)] g(2) have "open_rb f = None"
        and eq: "open_rb_plus g = open_rb_plus f" by simp_all
      with assms(2) sim p f(1) have "open_rb_plus f = None" by blast
      with eq g have "matches False (files ?fs') p" by (auto simp: matches_iff opens_def)
      with clear p show False by blast
    qed
  qed
  obtain t' i' s1 where s1: "disk s1 = files ?fs'" "extensible_files s1 = 0"
    and e: "res_extensible_files (fst (patch_wav_files ?fs' d simulate2 verbose2))
              = extensible_files (scan_loop simulate2 verbose2 t' i' (rglob_wav ?fs' d) s1)"
    using patch_wav_files_loop [OF same(1)] by metis
  have "extensible_files (scan_loop simulate2 verbose2 t' i' ?ps s1) = extensible_files s1"
    using none by (intro scan_loop_nothing) (simp add: s1)
  then show ?thesis using e s1 same(2) by simp
qed


theorem second_run_finds_none_witness:
  "res_extensible_files
     (fst (patch_wav_files (after_run three_files ''music'' False False) ''music'' True False)) = 0"
proof -
  have w: "\<forall>p\<in>set (rglob_wav three_files ''music''). \<forall>f.
      files three_files p = Some f \<and> matches False (files three_files) p \<longrightarrow> write_raises f = None"
    by (auto simp: three_files_def tree_def plain_file_def split: if_splits)
  have o: "True \<longrightarrow> (\<forall>p\<in>set (rglob_wav three_files ''music''). \<forall>f.
      files three_files p = Some f \<and> open_rb f = None \<longrightarrow> open_rb_plus f = None)"
    by (auto simp: three_files_def tree_def plain_file_def split: if_splits)
  show ?thesis by (rule second_run_finds_none [OF w o])
qed

section \<open>A write that raises\<close>





section \<open>Claims about a failed write\<close>



section \<open>Leaving a path out\<close>









section \<open>Claims about per-file errors\<close>




end
